theory Spec2Isabelle
  imports Main
begin

section \<open>The model loader of \<open>dist/lib/aiModelLoader.js\<close>\<close>

text \<open>
  The class \<open>AIModelLoader\<close> keeps a JavaScript \<open>Map\<close> from model names to cache
  entry objects. The entry objects are mutated in place, also by a suspended
  \<open>loadModel\<close> call that still holds a reference after the map has been cleared, so
  the entries live in an explicit store and the map holds their addresses. A JavaScript
  \<open>Map\<close> iterates in insertion order and never has two bindings of one key: it is an
  association list whose keys are distinct (\<open>wf_cache\<close> below).

  Values that the loader only passes around are identified by a number: a function
  object (the \<open>loadModel\<close> function of a configuration), a promise, a thrown value.
  \<open>Date.now()\<close> is an argument \<open>now\<close> of every synchronous run that reads the clock.
\<close>

type_synonym addr = nat
type_synonym promise = nat
type_synonym fn = nat
type_synonym thrown = nat

datatype ModelLoadingStatus = IDLE | LOADING | LOADED | ERROR

text \<open>
  What a load function may resolve to is typed \<open>any\<close>: \<open>null\<close>, another falsy value
  (\<open>undefined\<close>, \<open>false\<close>, \<open>0\<close>, the empty string) or a truthy value such as a model
  object. Line 88 tests the truthiness of the stored value.
\<close>

datatype resource = Null | Falsy nat | Obj nat

fun truthy :: "resource \<Rightarrow> bool" where
  "truthy (Obj _) = True"
| "truthy _ = False"

datatype error =
    NotRegistered string
  | NoValidLoadFunction string
  | Raised thrown

text \<open>
  \<open>AIModelConfig\<close>: the name and the load function; \<open>None\<close> is a \<open>loadModel\<close> field
  for which \<open>typeof\<close> is not \<open>'function'\<close>. The fields \<open>modelUrl\<close>, \<open>modelType\<close>
  and \<open>initOptions\<close> are never read by the loader.
\<close>

record AIModelConfig =
  name :: string
  cfg_loadModel :: "fn option"

record ModelCacheEntry =
  model :: resource
  status :: ModelLoadingStatus
  lastUsed :: int
  loadPromise :: "promise option"
  config :: AIModelConfig

text \<open>
  The loader object. \<open>invoked\<close> logs every call of a load function (line 105), in
  order, and \<open>next_promise\<close> numbers the promises these calls return; \<open>next_addr\<close> is
  the next free address of the store. The fields \<open>loadingQueue\<close> and
  \<open>loadingPromises\<close> of the class are written by the constructor only and left out.
\<close>

record AIModelLoader =
  store :: "addr \<Rightarrow> ModelCacheEntry"
  next_addr :: addr
  modelCache :: "(string \<times> addr) list"
  isInitialized :: bool
  maxCacheSize :: int
  cacheTtl :: int
  invoked :: "fn list"
  next_promise :: promise

record options =
  opt_maxCacheSize :: "int option"
  opt_cacheTtl :: "int option"

text \<open>\<open>x || d\<close> on an optional number: \<open>undefined\<close> and \<open>0\<close> are falsy.\<close>

fun or_default :: "int option \<Rightarrow> int \<Rightarrow> int" where
  "or_default None d = d"
| "or_default (Some n) d = (if n = 0 then d else n)"

definition blank_entry :: ModelCacheEntry where
  "blank_entry = \<lparr>model = Null, status = IDLE, lastUsed = 0, loadPromise = None,
     config = \<lparr>name = [], cfg_loadModel = None\<rparr>\<rparr>"

text \<open>Lines 28 to 35. Addresses that hold no entry yet read as \<open>blank_entry\<close>.\<close>

definition new_AIModelLoader :: "options \<Rightarrow> AIModelLoader" where
  "new_AIModelLoader opts =
     \<lparr>store = (\<lambda>_. blank_entry), next_addr = 0, modelCache = [], isInitialized = False,
      maxCacheSize = or_default (opt_maxCacheSize opts) 5,
      cacheTtl = or_default (opt_cacheTtl opts) (30 * 60 * 1000),
      invoked = [], next_promise = 0\<rparr>"

text \<open>Lines 39 to 45.\<close>

definition initialize :: "AIModelLoader \<Rightarrow> AIModelLoader" where
  "initialize w = (if isInitialized w then w else w\<lparr>isInitialized := True\<rparr>)"

text \<open>\<open>this.modelCache.has\<close> and \<open>this.modelCache.get\<close>.\<close>

definition has :: "AIModelLoader \<Rightarrow> string \<Rightarrow> bool" where
  "has w n = (map_of (modelCache w) n \<noteq> None)"

definition get_entry :: "AIModelLoader \<Rightarrow> string \<Rightarrow> ModelCacheEntry option" where
  "get_entry w n = map_option (store w) (map_of (modelCache w) n)"

text \<open>An assignment to fields of the entry object at an address.\<close>

definition upd :: "AIModelLoader \<Rightarrow> addr \<Rightarrow> (ModelCacheEntry \<Rightarrow> ModelCacheEntry) \<Rightarrow> AIModelLoader" where
  "upd w a f = w\<lparr>store := (store w)(a := f (store w a))\<rparr>"

text \<open>Lines 50 to 62.\<close>

definition registerModel :: "AIModelLoader \<Rightarrow> AIModelConfig \<Rightarrow> int \<Rightarrow> AIModelLoader" where
  "registerModel w cfg now =
     (if has w (name cfg) then w
      else w\<lparr>store := (store w)(next_addr w :=
                 \<lparr>model = Null, status = IDLE, lastUsed = now, loadPromise = None,
                  config = cfg\<rparr>),
             next_addr := Suc (next_addr w),
             modelCache := modelCache w @ [(name cfg, next_addr w)]\<rparr>)"

text \<open>Lines 67 to 70.\<close>

definition getModelStatus :: "AIModelLoader \<Rightarrow> string \<Rightarrow> ModelLoadingStatus" where
  "getModelStatus w modelName =
     (case map_of (modelCache w) modelName of
        None \<Rightarrow> IDLE
      | Some a \<Rightarrow> status (store w a))"

text \<open>Lines 137 to 146.\<close>

definition unloadModel :: "AIModelLoader \<Rightarrow> string \<Rightarrow> AIModelLoader" where
  "unloadModel w modelName =
     (case map_of (modelCache w) modelName of
        None \<Rightarrow> w
      | Some a \<Rightarrow>
          if status (store w a) \<noteq> LOADED then w
          else upd w a (\<lambda>e. e\<lparr>model := Null, status := IDLE\<rparr>))"

text \<open>
  Lines 151 to 163. The array of the \<open>LOADED\<close> bindings is sorted by \<open>lastUsed\<close>
  (\<open>Array.prototype.sort\<close> is stable, as \<open>sort_key\<close> is); the loop shifts and unloads
  while the array is not empty and the size of the map exceeds \<open>maxCacheSize\<close>.
\<close>

fun evict_loop :: "AIModelLoader \<Rightarrow> (string \<times> addr) list \<Rightarrow> AIModelLoader" where
  "evict_loop w [] = w"
| "evict_loop w ((modelName, a) # entries) =
     (if int (length (modelCache w)) > maxCacheSize w
      then evict_loop (unloadModel w modelName) entries
      else w)"

definition ensureCacheSpace :: "AIModelLoader \<Rightarrow> AIModelLoader" where
  "ensureCacheSpace w =
     (if int (length (modelCache w)) \<le> maxCacheSize w then w
      else evict_loop w
             (sort_key (\<lambda>(modelId, a). lastUsed (store w a))
                (filter (\<lambda>(modelId, a). status (store w a) = LOADED) (modelCache w))))"

text \<open>
  Lines 167 to 175. \<open>sweep\<close> is the body of the loop; it reads the live entry object
  of each binding.
\<close>

definition sweep :: "int \<Rightarrow> string \<times> addr \<Rightarrow> AIModelLoader \<Rightarrow> AIModelLoader" where
  "sweep now =
     (\<lambda>(modelName, a) w.
        if status (store w a) = LOADED \<and> now - lastUsed (store w a) > cacheTtl w
        then unloadModel w modelName else w)"

definition cleanupExpiredModels :: "AIModelLoader \<Rightarrow> int \<Rightarrow> AIModelLoader" where
  "cleanupExpiredModels w now = fold (sweep now) (modelCache w) w"

text \<open>Lines 179 to 185.\<close>

definition dispose :: "AIModelLoader \<Rightarrow> AIModelLoader" where
  "dispose w =
     (fold (\<lambda>(modelName, a) w'. unloadModel w' modelName) (modelCache w) w)
       \<lparr>modelCache := [], isInitialized := False\<rparr>"

subsection \<open>\<open>loadModel\<close>, one synchronous run at a time\<close>

text \<open>
  \<open>loadModel\<close> is an \<open>async\<close> function with two \<open>await\<close>s, so a call is up to three
  synchronous runs: lines 78 to 99 (\<open>ensureCacheSpace\<close> has no \<open>await\<close> of its own, so
  its body runs inside the call), lines 101 to 107 after the first \<open>await\<close> has
  yielded, and lines 109 to 120 when the promise of the load function has settled.
  Other code may run between the runs.
\<close>

datatype enter_result =
    Threw error
  | Returned resource
  | ReturnedPromise promise
  | Suspended addr

definition loadModel_enter ::
  "AIModelLoader \<Rightarrow> string \<Rightarrow> AIModelConfig option \<Rightarrow> int \<Rightarrow> enter_result \<times> AIModelLoader" where
  "loadModel_enter w modelName cfg now =
     (let w1 = (case cfg of
                  None \<Rightarrow> w
                | Some c \<Rightarrow> if \<not> has w modelName then registerModel w c now else w)
      in case map_of (modelCache w1) modelName of
           None \<Rightarrow> (Threw (NotRegistered modelName), w1)
         | Some a \<Rightarrow>
             let w2 = upd w1 a (\<lambda>e. e\<lparr>lastUsed := now\<rparr>);
                 entry = store w2 a
             in if truthy (model entry) \<and> status entry = LOADED
                then (Returned (model entry), w2)
                else if status entry = LOADING \<and> loadPromise entry \<noteq> None
                then (ReturnedPromise (the (loadPromise entry)), w2)
                else (Suspended a,
                      ensureCacheSpace (upd w2 a (\<lambda>e. e\<lparr>status := LOADING\<rparr>))))"

text \<open>
  The \<open>catch\<close> and \<open>finally\<close> blocks, lines 113 to 120, and the second run. The call of
  the load function either throws or returns a promise, which is stored in the entry.
\<close>

definition catch_finally :: "AIModelLoader \<Rightarrow> addr \<Rightarrow> AIModelLoader" where
  "catch_finally w a = upd w a (\<lambda>e. e\<lparr>status := ERROR, loadPromise := None\<rparr>)"

datatype invocation = CallThrows thrown | CallReturns

datatype resume_result = Failed error | Awaiting promise

definition loadModel_resume ::
  "AIModelLoader \<Rightarrow> string \<Rightarrow> addr \<Rightarrow> AIModelConfig option \<Rightarrow> invocation
     \<Rightarrow> resume_result \<times> AIModelLoader" where
  "loadModel_resume w modelName a cfg called =
     (let modelConfig = (case cfg of Some c \<Rightarrow> c | None \<Rightarrow> config (store w a))
      in case cfg_loadModel modelConfig of
           None \<Rightarrow> (Failed (NoValidLoadFunction modelName), catch_finally w a)
         | Some f \<Rightarrow>
             let w1 = w\<lparr>invoked := invoked w @ [f]\<rparr>
             in (case called of
                   CallThrows x \<Rightarrow> (Failed (Raised x), catch_finally w1 a)
                 | CallReturns \<Rightarrow>
                     (Awaiting (next_promise w1),
                      (upd w1 a (\<lambda>e. e\<lparr>loadPromise := Some (next_promise w1)\<rparr>))
                        \<lparr>next_promise := Suc (next_promise w1)\<rparr>)))"

text \<open>The third run: the awaited promise has settled.\<close>

datatype outcome = Resolved resource | Rejected thrown

definition loadModel_settle ::
  "AIModelLoader \<Rightarrow> addr \<Rightarrow> outcome \<Rightarrow> (error + resource) \<times> AIModelLoader" where
  "loadModel_settle w a out =
     (case out of
        Resolved m \<Rightarrow>
          (Inr m, upd w a (\<lambda>e. e\<lparr>model := m, status := LOADED, loadPromise := None\<rparr>))
      | Rejected x \<Rightarrow> (Inl (Raised x), catch_finally w a))"

subsection \<open>A call that is awaited before anything else runs\<close>

text \<open>
  \<open>await loader.loadModel(name, config)\<close> with no other code between the runs. The
  behaviour of the load function, should it be called, is an argument. A call that
  finds a stored promise returns that promise: its result is the promise's.
\<close>

datatype behaviour = Throws thrown | Rejects thrown | Resolves resource

datatype load_result = Fail error | Ok resource | Join promise

definition loadModel ::
  "AIModelLoader \<Rightarrow> string \<Rightarrow> AIModelConfig option \<Rightarrow> int \<Rightarrow> behaviour
     \<Rightarrow> load_result \<times> AIModelLoader" where
  "loadModel w modelName cfg now b =
     (case loadModel_enter w modelName cfg now of
        (Threw e, w1) \<Rightarrow> (Fail e, w1)
      | (Returned m, w1) \<Rightarrow> (Ok m, w1)
      | (ReturnedPromise p, w1) \<Rightarrow> (Join p, w1)
      | (Suspended a, w1) \<Rightarrow>
          (case loadModel_resume w1 modelName a cfg
                  (case b of Throws x \<Rightarrow> CallThrows x | _ \<Rightarrow> CallReturns) of
             (Failed e, w2) \<Rightarrow> (Fail e, w2)
           | (Awaiting p, w2) \<Rightarrow>
               (case loadModel_settle w2 a
                       (case b of Resolves m \<Rightarrow> Resolved m | Rejects x \<Rightarrow> Rejected x
                        | Throws x \<Rightarrow> Rejected x) of
                  (Inl e, w3) \<Rightarrow> (Fail e, w3)
                | (Inr m, w3) \<Rightarrow> (Ok m, w3))))"

subsection \<open>Calls that overlap\<close>

text \<open>
  The runs of several calls interleave. A call suspended at line 99 continues in its turn
  (the microtask queue is first in, first out); a call suspended at line 107 continues
  when its promise settles. A call that returned a stored promise settles as that
  promise does. \<open>results\<close> records what each call's promise settled to, by call number;
  \<open>preloadModel\<close> (lines 126 to 132) attaches a \<open>catch\<close> handler that only logs.
\<close>

record task =
  t_call :: nat
  t_name :: string
  t_entry :: addr
  t_config :: "AIModelConfig option"
  t_awaits :: "promise option"

record runtime =
  loader :: AIModelLoader
  tasks :: "task list"
  joined :: "(nat \<times> promise) list"
  results :: "(nat \<times> (error + resource)) list"
  next_call :: nat

definition start :: "options \<Rightarrow> runtime" where
  "start opts =
     \<lparr>loader = new_AIModelLoader opts, tasks = [], joined = [], results = [], next_call = 0\<rparr>"

definition call_loadModel ::
  "runtime \<Rightarrow> string \<Rightarrow> AIModelConfig option \<Rightarrow> int \<Rightarrow> runtime" where
  "call_loadModel r modelName cfg now =
     (let c = next_call r in
      case loadModel_enter (loader r) modelName cfg now of
        (Threw e, w) \<Rightarrow>
          r\<lparr>loader := w, next_call := Suc c, results := results r @ [(c, Inl e)]\<rparr>
      | (Returned m, w) \<Rightarrow>
          r\<lparr>loader := w, next_call := Suc c, results := results r @ [(c, Inr m)]\<rparr>
      | (ReturnedPromise p, w) \<Rightarrow>
          r\<lparr>loader := w, next_call := Suc c, joined := joined r @ [(c, p)]\<rparr>
      | (Suspended a, w) \<Rightarrow>
          r\<lparr>loader := w, next_call := Suc c,
            tasks := tasks r @ [\<lparr>t_call = c, t_name = modelName, t_entry = a,
                                  t_config = cfg, t_awaits = None\<rparr>]\<rparr>)"

definition preloadModel :: "runtime \<Rightarrow> string \<Rightarrow> int \<Rightarrow> runtime" where
  "preloadModel r modelName now =
     (case get_entry (loader r) modelName of
        None \<Rightarrow> r
      | Some entry \<Rightarrow>
          if status entry \<noteq> IDLE then r else call_loadModel r modelName None now)"

fun resume_oldest ::
  "AIModelLoader \<Rightarrow> invocation \<Rightarrow> task list
     \<Rightarrow> task list \<times> AIModelLoader \<times> (nat \<times> (error + resource)) list" where
  "resume_oldest w called [] = ([], w, [])"
| "resume_oldest w called (t # ts) =
     (case t_awaits t of
        Some p \<Rightarrow>
          (case resume_oldest w called ts of (ts', w', rs) \<Rightarrow> (t # ts', w', rs))
      | None \<Rightarrow>
          (case loadModel_resume w (t_name t) (t_entry t) (t_config t) called of
             (Failed e, w') \<Rightarrow> (ts, w', [(t_call t, Inl e)])
           | (Awaiting p, w') \<Rightarrow> (t\<lparr>t_awaits := Some p\<rparr> # ts, w', [])))"

fun settle_tasks ::
  "AIModelLoader \<Rightarrow> promise \<Rightarrow> outcome \<Rightarrow> task list
     \<Rightarrow> task list \<times> AIModelLoader \<times> (nat \<times> (error + resource)) list" where
  "settle_tasks w p out [] = ([], w, [])"
| "settle_tasks w p out (t # ts) =
     (if t_awaits t = Some p
      then (case loadModel_settle w (t_entry t) out of
              (res, w') \<Rightarrow>
                (case settle_tasks w' p out ts of
                   (ts', w'', rs) \<Rightarrow> (ts', w'', (t_call t, res) # rs)))
      else (case settle_tasks w p out ts of (ts', w'', rs) \<Rightarrow> (t # ts', w'', rs)))"

definition settled :: "outcome \<Rightarrow> error + resource" where
  "settled out = (case out of Resolved m \<Rightarrow> Inr m | Rejected x \<Rightarrow> Inl (Raised x))"

datatype event =
    RegisterModel AIModelConfig int
  | LoadModel string "AIModelConfig option" int
  | PreloadModel string int
  | UnloadModel string
  | CleanupExpiredModels int
  | Dispose
  | Resume invocation
  | Settle promise outcome

fun step :: "runtime \<Rightarrow> event \<Rightarrow> runtime" where
  "step r (RegisterModel cfg now) = r\<lparr>loader := registerModel (loader r) cfg now\<rparr>"
| "step r (LoadModel modelName cfg now) = call_loadModel r modelName cfg now"
| "step r (PreloadModel modelName now) = preloadModel r modelName now"
| "step r (UnloadModel modelName) = r\<lparr>loader := unloadModel (loader r) modelName\<rparr>"
| "step r (CleanupExpiredModels now) = r\<lparr>loader := cleanupExpiredModels (loader r) now\<rparr>"
| "step r Dispose = r\<lparr>loader := dispose (loader r)\<rparr>"
| "step r (Resume called) =
     (case resume_oldest (loader r) called (tasks r) of
        (ts, w, rs) \<Rightarrow> r\<lparr>loader := w, tasks := ts, results := results r @ rs\<rparr>)"
| "step r (Settle p out) =
     (case settle_tasks (loader r) p out (tasks r) of
        (ts, w, rs) \<Rightarrow>
          r\<lparr>loader := w, tasks := ts,
            joined := filter (\<lambda>(c, q). q \<noteq> p) (joined r),
            results := results r @ rs
              @ map (\<lambda>(c, q). (c, settled out)) (filter (\<lambda>(c, q). q = p) (joined r))\<rparr>)"

definition run :: "runtime \<Rightarrow> event list \<Rightarrow> runtime" where
  "run r evs = foldl step r evs"

subsection \<open>Vocabulary of the properties\<close>

text \<open>The keys of the map are distinct, as in every JavaScript \<open>Map\<close>.\<close>

definition wf_cache :: "AIModelLoader \<Rightarrow> bool" where
  "wf_cache w = distinct (map fst (modelCache w))"

text \<open>The tests of lines 88 and 92 on an entry.\<close>

definition hit :: "ModelCacheEntry \<Rightarrow> bool" where
  "hit e = (truthy (model e) \<and> status e = LOADED)"

definition joins :: "ModelCacheEntry \<Rightarrow> bool" where
  "joins e = (status e = LOADING \<and> loadPromise e \<noteq> None)"

definition unloaded :: "ModelCacheEntry \<Rightarrow> ModelCacheEntry" where
  "unloaded e = e\<lparr>model := Null, status := IDLE\<rparr>"

text \<open>The test of lines 170 and 171.\<close>

definition expired :: "AIModelLoader \<Rightarrow> int \<Rightarrow> ModelCacheEntry \<Rightarrow> bool" where
  "expired w now e = (status e = LOADED \<and> now - lastUsed e > cacheTtl w)"

text \<open>
  Operations that do not overlap: every load is awaited before the next operation
  starts, and \<open>preloadModel\<close>, which is never awaited, is left out.
\<close>

datatype op =
    Register AIModelConfig int
  | Load string "AIModelConfig option" int behaviour
  | Unload string
  | Cleanup int
  | DisposeAll

fun apply_op :: "AIModelLoader \<Rightarrow> op \<Rightarrow> AIModelLoader" where
  "apply_op w (Register cfg now) = registerModel w cfg now"
| "apply_op w (Load modelName cfg now b) = snd (loadModel w modelName cfg now b)"
| "apply_op w (Unload modelName) = unloadModel w modelName"
| "apply_op w (Cleanup now) = cleanupExpiredModels w now"
| "apply_op w DisposeAll = dispose w"

definition resource_only_when_loaded :: "AIModelLoader \<Rightarrow> bool" where
  "resource_only_when_loaded w =
     (\<forall>a. truthy (model (store w a)) \<longrightarrow> status (store w a) = LOADED)"

text \<open>A configuration with a load function, and the status of several names.\<close>

definition cfg_of :: "string \<Rightarrow> fn \<Rightarrow> AIModelConfig" where
  "cfg_of n f = \<lparr>name = n, cfg_loadModel = Some f\<rparr>"

definition statuses :: "runtime \<Rightarrow> string list \<Rightarrow> ModelLoadingStatus list" where
  "statuses r ns = map (getModelStatus (loader r)) ns"

definition capacity :: "int \<Rightarrow> options" where
  "capacity k = \<lparr>opt_maxCacheSize = Some k, opt_cacheTtl = None\<rparr>"

text \<open>
  \<open>await loader.loadModel(name, config)\<close> as events: the call, its turn after the
  first \<open>await\<close>, and the settlement of the promise numbered \<open>p\<close>.
\<close>

definition awaited ::
  "string \<Rightarrow> AIModelConfig option \<Rightarrow> int \<Rightarrow> promise \<Rightarrow> outcome \<Rightarrow> event list" where
  "awaited modelName cfg now p out = [LoadModel modelName cfg now, Resume CallReturns, Settle p out]"

subsection \<open>Scenarios\<close>

text \<open>
  Capacity 2: \<open>x\<close>, \<open>y\<close> and \<open>z\<close> are loaded one after the other at times 1, 2, 3,
  each registered by its own call (\<open>lru_x_y\<close>, \<open>lru_z\<close>) or all three registered
  beforehand (\<open>lru_registered\<close>).
\<close>

definition lru_x_y :: "event list" where
  "lru_x_y = awaited ''x'' (Some (cfg_of ''x'' 0)) 1 0 (Resolved (Obj 10))
           @ awaited ''y'' (Some (cfg_of ''y'' 1)) 2 1 (Resolved (Obj 11))"

definition lru_z :: "event list" where
  "lru_z = awaited ''z'' (Some (cfg_of ''z'' 2)) 3 2 (Resolved (Obj 12))"

definition lru_registered :: "event list" where
  "lru_registered =
     [RegisterModel (cfg_of ''x'' 0) 0, RegisterModel (cfg_of ''y'' 1) 0,
      RegisterModel (cfg_of ''z'' 2) 0]
     @ awaited ''x'' None 1 0 (Resolved (Obj 10))
     @ awaited ''y'' None 2 1 (Resolved (Obj 11))"

text \<open>
  Two calls \<open>loadModel('a')\<close> made in one synchronous run, as in
  \<open>Promise.all([loader.loadModel('a'), loader.loadModel('a')])\<close>, and then their turns
  after the first \<open>await\<close>.
\<close>

definition overlap :: "event list" where
  "overlap =
     [RegisterModel (cfg_of ''a'' 7) 0, LoadModel ''a'' None 1, LoadModel ''a'' None 1,
      Resume CallReturns, Resume CallReturns]"

text \<open>\<open>preloadModel('a')\<close> followed at once by \<open>loadModel('a')\<close>.\<close>

definition preload_then_load :: "event list" where
  "preload_then_load =
     [RegisterModel (cfg_of ''a'' 7) 0, PreloadModel ''a'' 1, LoadModel ''a'' None 1,
      Resume CallReturns, Resume CallReturns]"

text \<open>
  Capacity 1 with \<open>a\<close> and \<open>b\<close> registered: \<open>a\<close> is loaded, then the load of \<open>b\<close> is
  rejected, then \<open>a\<close> is loaded again.
\<close>

definition cap1_a :: "fn \<Rightarrow> fn \<Rightarrow> int \<Rightarrow> resource \<Rightarrow> event list" where
  "cap1_a fa fb t m =
     [RegisterModel (cfg_of ''a'' fa) 0, RegisterModel (cfg_of ''b'' fb) 0]
     @ awaited ''a'' None t 0 (Resolved m)"

definition cap1_b :: "int \<Rightarrow> thrown \<Rightarrow> event list" where
  "cap1_b t x = awaited ''b'' None t 1 (Rejected x)"

definition cap1_a_again :: "int \<Rightarrow> resource \<Rightarrow> event list" where
  "cap1_a_again t m = awaited ''a'' None t 2 (Resolved m)"

text \<open>A load function that resolves to \<open>undefined\<close>, and a second load of the same name.\<close>

definition falsy_loaded :: "event list" where
  "falsy_loaded =
     RegisterModel (cfg_of ''a'' 7) 0 # awaited ''a'' None 1 0 (Resolved (Falsy 0))"

definition falsy_again :: "event list" where
  "falsy_again = awaited ''a'' None 2 1 (Resolved (Obj 1))"

text \<open>A loader in which \<open>a\<close> was loaded at time 1 and \<open>b\<close> at time 50.\<close>

definition two_loaded :: AIModelLoader where
  "two_loaded =
     loader (run (start \<lparr>opt_maxCacheSize = None, opt_cacheTtl = Some 30\<rparr>)
       ([RegisterModel (cfg_of ''a'' 7) 0, RegisterModel (cfg_of ''b'' 8) 0]
        @ awaited ''a'' None 1 0 (Resolved (Obj 1))
        @ awaited ''b'' None 50 1 (Resolved (Obj 2))))"

definition entry_a :: ModelCacheEntry where
  "entry_a = \<lparr>model = Obj 1, status = LOADED, lastUsed = 1, loadPromise = None,
              config = cfg_of ''a'' 7\<rparr>"

definition entry_b :: ModelCacheEntry where
  "entry_b = \<lparr>model = Obj 2, status = LOADED, lastUsed = 50, loadPromise = None,
              config = cfg_of ''b'' 8\<rparr>"

text \<open>A loader in which \<open>a\<close> is registered and has never been loaded.\<close>

definition registered_a :: AIModelLoader where
  "registered_a = registerModel (new_AIModelLoader (capacity 5)) (cfg_of ''a'' 7) 0"

definition idle_a :: ModelCacheEntry where
  "idle_a = \<lparr>model = Null, status = IDLE, lastUsed = 0, loadPromise = None,
             config = cfg_of ''a'' 7\<rparr>"

section \<open>Properties\<close>

subsection \<open>What each operation leaves alone\<close>

lemmas scenario_defs =
  run_def start_def awaited_def call_loadModel_def preloadModel_def loadModel_enter_def
  loadModel_resume_def loadModel_settle_def registerModel_def has_def upd_def
  ensureCacheSpace_def unloadModel_def getModelStatus_def new_AIModelLoader_def
  catch_finally_def statuses_def capacity_def cfg_of_def settled_def get_entry_def Let_def

lemma upd_fields [simp]:
  "modelCache (upd w a f) = modelCache w"
  "maxCacheSize (upd w a f) = maxCacheSize w"
  "cacheTtl (upd w a f) = cacheTtl w"
  "invoked (upd w a f) = invoked w"
  "next_promise (upd w a f) = next_promise w"
  "next_addr (upd w a f) = next_addr w"
  "isInitialized (upd w a f) = isInitialized w"
  "store (upd w a f) b = (if b = a then f (store w a) else store w b)"
  by (simp_all add: upd_def)

lemma unloadModel_fields [simp]:
  "modelCache (unloadModel w n) = modelCache w"
  "maxCacheSize (unloadModel w n) = maxCacheSize w"
  "cacheTtl (unloadModel w n) = cacheTtl w"
  "invoked (unloadModel w n) = invoked w"
  "next_promise (unloadModel w n) = next_promise w"
  "next_addr (unloadModel w n) = next_addr w"
  "isInitialized (unloadModel w n) = isInitialized w"
  by (simp_all add: unloadModel_def split: option.splits)

lemma unloadModel_store:
  "store (unloadModel w n) a =
     (if map_of (modelCache w) n = Some a \<and> status (store w a) = LOADED
      then unloaded (store w a) else store w a)"
  by (simp add: unloadModel_def unloaded_def split: option.splits)

lemma evict_loop_fields [simp]:
  "modelCache (evict_loop w es) = modelCache w"
  "maxCacheSize (evict_loop w es) = maxCacheSize w"
  "cacheTtl (evict_loop w es) = cacheTtl w"
  "invoked (evict_loop w es) = invoked w"
  "next_promise (evict_loop w es) = next_promise w"
  "next_addr (evict_loop w es) = next_addr w"
  "isInitialized (evict_loop w es) = isInitialized w"
  by (induction w es rule: evict_loop.induct; simp)+

lemma evict_loop_keeps:
  "status (store w a) \<noteq> LOADED \<Longrightarrow> store (evict_loop w es) a = store w a"
  by (induction w es rule: evict_loop.induct) (simp_all add: unloadModel_store)

lemma evict_loop_entry:
  "config (store (evict_loop w es) a) = config (store w a)
   \<and> lastUsed (store (evict_loop w es) a) = lastUsed (store w a)
   \<and> loadPromise (store (evict_loop w es) a) = loadPromise (store w a)"
  by (induction w es rule: evict_loop.induct)
     (simp_all add: unloadModel_store unloaded_def)

lemma ensureCacheSpace_fields [simp]:
  "modelCache (ensureCacheSpace w) = modelCache w"
  "maxCacheSize (ensureCacheSpace w) = maxCacheSize w"
  "cacheTtl (ensureCacheSpace w) = cacheTtl w"
  "invoked (ensureCacheSpace w) = invoked w"
  "next_promise (ensureCacheSpace w) = next_promise w"
  "next_addr (ensureCacheSpace w) = next_addr w"
  "isInitialized (ensureCacheSpace w) = isInitialized w"
  by (simp_all add: ensureCacheSpace_def)

lemma ensureCacheSpace_keeps:
  "status (store w a) \<noteq> LOADED \<Longrightarrow> store (ensureCacheSpace w) a = store w a"
  by (simp add: ensureCacheSpace_def evict_loop_keeps)

lemma ensureCacheSpace_entry:
  "config (store (ensureCacheSpace w) a) = config (store w a)
   \<and> lastUsed (store (ensureCacheSpace w) a) = lastUsed (store w a)
   \<and> loadPromise (store (ensureCacheSpace w) a) = loadPromise (store w a)"
  by (simp add: ensureCacheSpace_def evict_loop_entry)

lemma get_entry_Some:
  "get_entry w n = Some e \<longleftrightarrow> (\<exists>a. map_of (modelCache w) n = Some a \<and> store w a = e)"
  by (auto simp: get_entry_def)

subsection \<open>The first run of a call on a registered name\<close>

lemma hit_lastUsed [simp]: "hit (e\<lparr>lastUsed := t\<rparr>) = hit e"
  by (simp add: hit_def)

lemma joins_lastUsed [simp]: "joins (e\<lparr>lastUsed := t\<rparr>) = joins e"
  by (simp add: joins_def)

lemma enter_registered:
  assumes "map_of (modelCache w) n = Some a"
  shows "loadModel_enter w n cfg now =
     (let e = (store w a)\<lparr>lastUsed := now\<rparr>;
          w2 = upd w a (\<lambda>e. e\<lparr>lastUsed := now\<rparr>)
      in if hit e then (Returned (model e), w2)
         else if joins e then (ReturnedPromise (the (loadPromise e)), w2)
         else (Suspended a, ensureCacheSpace (upd w2 a (\<lambda>e. e\<lparr>status := LOADING\<rparr>))))"
  using assms
  by (cases cfg) (simp_all add: loadModel_enter_def has_def Let_def hit_def joins_def)

lemma enter_constructs:
  assumes "map_of (modelCache w) n = Some a" "\<not> hit (store w a)" "\<not> joins (store w a)"
  shows "\<exists>w1. loadModel_enter w n cfg now = (Suspended a, w1)
        \<and> store w1 a = (store w a)\<lparr>lastUsed := now, status := LOADING\<rparr>
        \<and> modelCache w1 = modelCache w \<and> invoked w1 = invoked w
        \<and> next_promise w1 = next_promise w
        \<and> (\<forall>b. config (store w1 b) = config (store w b))"
  using assms
  by (simp add: enter_registered hit_def joins_def Let_def ensureCacheSpace_keeps
      ensureCacheSpace_entry)

subsection \<open>The sweep over the map\<close>

lemma sweep_fields [simp]:
  "modelCache (sweep now x w) = modelCache w"
  "maxCacheSize (sweep now x w) = maxCacheSize w"
  "cacheTtl (sweep now x w) = cacheTtl w"
  "invoked (sweep now x w) = invoked w"
  "next_promise (sweep now x w) = next_promise w"
  "next_addr (sweep now x w) = next_addr w"
  "isInitialized (sweep now x w) = isInitialized w"
  by (cases x; simp add: sweep_def)+

lemma fold_sweep_fields [simp]:
  "modelCache (fold (sweep now) xs w) = modelCache w"
  "maxCacheSize (fold (sweep now) xs w) = maxCacheSize w"
  "cacheTtl (fold (sweep now) xs w) = cacheTtl w"
  "invoked (fold (sweep now) xs w) = invoked w"
  "next_promise (fold (sweep now) xs w) = next_promise w"
  "next_addr (fold (sweep now) xs w) = next_addr w"
  "isInitialized (fold (sweep now) xs w) = isInitialized w"
  by (induction xs arbitrary: w; simp)+

lemma fold_sweep_store:
  assumes "\<forall>(n, a) \<in> set xs. map_of (modelCache w) n = Some a"
  shows "store (fold (sweep now) xs w) a =
     (if a \<in> snd ` set xs \<and> expired w now (store w a)
      then unloaded (store w a) else store w a)"
  using assms
proof (induction xs arbitrary: w)
  case Nil
  then show ?case by simp
next
  case (Cons x xs)
  obtain n b where x: "x = (n, b)" by (cases x)
  define w1 where "w1 = sweep now (n, b) w"
  from Cons.prems x have nb: "map_of (modelCache w) n = Some b" by simp
  have st1: "store w1 c =
      (if c = b \<and> expired w now (store w b) then unloaded (store w b) else store w c)" for c
    using nb by (simp add: w1_def sweep_def unloadModel_store expired_def)
  have ttl1: "cacheTtl w1 = cacheTtl w" by (simp add: w1_def)
  have "\<forall>(n, a) \<in> set xs. map_of (modelCache w1) n = Some a"
    using Cons.prems by (simp add: w1_def)
  from Cons.IH [OF this]
  have "store (fold (sweep now) xs w1) a =
     (if a \<in> snd ` set xs \<and> expired w1 now (store w1 a)
      then unloaded (store w1 a) else store w1 a)" .
  moreover have "fold (sweep now) (x # xs) w = fold (sweep now) xs w1"
    by (simp add: x w1_def)
  ultimately show ?case
    by (auto simp: st1 ttl1 expired_def unloaded_def x)
qed

lemma wf_cache_bindings:
  "wf_cache w \<Longrightarrow> \<forall>(n, a) \<in> set (modelCache w). map_of (modelCache w) n = Some a"
  by (auto simp: wf_cache_def)

subsection \<open>Only the sweep reads the time to live\<close>

lemma upd_ttl: "upd (w\<lparr>cacheTtl := t\<rparr>) a f = (upd w a f)\<lparr>cacheTtl := t\<rparr>"
  by (simp add: upd_def)

lemma unloadModel_ttl:
  "unloadModel (w\<lparr>cacheTtl := t\<rparr>) n = (unloadModel w n)\<lparr>cacheTtl := t\<rparr>"
  by (simp add: unloadModel_def upd_ttl split: option.splits)

lemma evict_loop_ttl:
  "evict_loop (w\<lparr>cacheTtl := t\<rparr>) es = (evict_loop w es)\<lparr>cacheTtl := t\<rparr>"
  by (induction w es rule: evict_loop.induct) (simp_all add: unloadModel_ttl)

lemma ensureCacheSpace_ttl:
  "ensureCacheSpace (w\<lparr>cacheTtl := t\<rparr>) = (ensureCacheSpace w)\<lparr>cacheTtl := t\<rparr>"
  by (simp add: ensureCacheSpace_def evict_loop_ttl)

lemma registerModel_ttl:
  "registerModel (w\<lparr>cacheTtl := t\<rparr>) c now = (registerModel w c now)\<lparr>cacheTtl := t\<rparr>"
  by (simp add: registerModel_def has_def)

lemma fold_unload_ttl:
  "fold (\<lambda>(modelName, a) w'. unloadModel w' modelName) xs (w\<lparr>cacheTtl := t\<rparr>)
     = (fold (\<lambda>(modelName, a) w'. unloadModel w' modelName) xs w)\<lparr>cacheTtl := t\<rparr>"
  by (induction xs arbitrary: w) (auto simp: unloadModel_ttl)

lemma dispose_ttl: "dispose (w\<lparr>cacheTtl := t\<rparr>) = (dispose w)\<lparr>cacheTtl := t\<rparr>"
  by (simp add: dispose_def fold_unload_ttl)

lemma loadModel_enter_ttl:
  "loadModel_enter (w\<lparr>cacheTtl := t\<rparr>) n cfg now =
     (fst (loadModel_enter w n cfg now), (snd (loadModel_enter w n cfg now))\<lparr>cacheTtl := t\<rparr>)"
  by (cases cfg)
     (auto simp: loadModel_enter_def Let_def has_def registerModel_ttl upd_ttl
        ensureCacheSpace_ttl split: option.splits)

lemma loadModel_resume_ttl:
  "loadModel_resume (w\<lparr>cacheTtl := t\<rparr>) n a cfg called =
     (fst (loadModel_resume w n a cfg called),
      (snd (loadModel_resume w n a cfg called))\<lparr>cacheTtl := t\<rparr>)"
  by (auto simp: loadModel_resume_def Let_def catch_finally_def upd_def
      split: option.splits invocation.splits)

lemma loadModel_settle_ttl:
  "loadModel_settle (w\<lparr>cacheTtl := t\<rparr>) a out =
     (fst (loadModel_settle w a out), (snd (loadModel_settle w a out))\<lparr>cacheTtl := t\<rparr>)"
  by (auto simp: loadModel_settle_def catch_finally_def upd_def split: outcome.splits)

subsection \<open>An awaited call as events\<close>

lemma registerModel_next_promise [simp]:
  "next_promise (registerModel w c now) = next_promise w"
  by (simp add: registerModel_def)

lemma enter_next_promise:
  "next_promise (snd (loadModel_enter w n cfg now)) = next_promise w"
  by (cases cfg) (auto simp: loadModel_enter_def Let_def split: option.splits)

lemma awaited_is_loadModel:
  assumes "tasks r = []"
  shows "loader (run r (awaited n cfg now (next_promise (loader r)) out))
       = snd (loadModel (loader r) n cfg now
                (case out of Resolved m \<Rightarrow> Resolves m | Rejected x \<Rightarrow> Rejects x))"
proof -
  obtain res w1 where e: "loadModel_enter (loader r) n cfg now = (res, w1)"
    by (cases "loadModel_enter (loader r) n cfg now")
  have np: "next_promise w1 = next_promise (loader r)"
    using enter_next_promise [of "loader r" n cfg now] e by simp
  show ?thesis
  proof (cases res)
    case (Suspended a)
    then show ?thesis using e assms np
      by (cases out)
         (auto simp: run_def awaited_def call_loadModel_def loadModel_def Let_def
           loadModel_resume_def loadModel_settle_def split: option.splits prod.splits)
  qed (use e assms in
      \<open>auto simp: run_def awaited_def call_loadModel_def loadModel_def Let_def\<close>)
qed

subsection \<open>What the eviction pass unloads\<close>

lemma evict_loop_all:
  assumes "int (length (modelCache w)) > maxCacheSize w"
    and "\<forall>(n, a) \<in> set es. map_of (modelCache w) n = Some a"
  shows "store (evict_loop w es) a =
     (if a \<in> snd ` set es \<and> status (store w a) = LOADED
      then unloaded (store w a) else store w a)"
  using assms
proof (induction w es rule: evict_loop.induct)
  case (1 w)
  then show ?case by simp
next
  case (2 w n b es)
  define w1 where "w1 = unloadModel w n"
  from 2 have nb: "map_of (modelCache w) n = Some b" by simp
  have st1: "store w1 c =
      (if c = b \<and> status (store w b) = LOADED then unloaded (store w b) else store w c)" for c
    using nb by (auto simp: w1_def unloadModel_store)
  have "store (evict_loop w1 es) a =
     (if a \<in> snd ` set es \<and> status (store w1 a) = LOADED
      then unloaded (store w1 a) else store w1 a)"
    unfolding w1_def using 2 by simp
  moreover have "evict_loop w ((n, b) # es) = evict_loop w1 es"
    using 2 by (simp add: w1_def)
  ultimately show ?case
    by (auto simp: st1 unloaded_def)
qed

text \<open>
  Once the map holds more names than \<open>maxCacheSize\<close>, the pass unloads every
  \<open>LOADED\<close> entry of the map, whatever the order of their \<open>lastUsed\<close>.
\<close>

lemma ensureCacheSpace_unloads_every_loaded:
  assumes "wf_cache w"
  shows "store (ensureCacheSpace w) a =
     (if int (length (modelCache w)) > maxCacheSize w \<and> a \<in> snd ` set (modelCache w)
         \<and> status (store w a) = LOADED
      then unloaded (store w a) else store w a)"
proof (cases "int (length (modelCache w)) > maxCacheSize w")
  case False
  then show ?thesis by (simp add: ensureCacheSpace_def)
next
  case True
  let ?es = "sort_key (\<lambda>(modelId, a). lastUsed (store w a))
                (filter (\<lambda>(modelId, a). status (store w a) = LOADED) (modelCache w))"
  have "\<forall>(n, a) \<in> set ?es. map_of (modelCache w) n = Some a"
    using wf_cache_bindings [OF assms] by auto
  from evict_loop_all [OF True this, of a] True show ?thesis
    by (auto simp: ensureCacheSpace_def image_iff)
qed

subsection \<open>Calls that do not overlap keep the resource with the status\<close>

lemma inv_new: "resource_only_when_loaded (new_AIModelLoader opts)"
  by (simp add: resource_only_when_loaded_def new_AIModelLoader_def blank_entry_def)

lemma inv_register:
  "resource_only_when_loaded w \<Longrightarrow> resource_only_when_loaded (registerModel w c now)"
  by (simp add: resource_only_when_loaded_def registerModel_def)

lemma inv_unload:
  "resource_only_when_loaded w \<Longrightarrow> resource_only_when_loaded (unloadModel w n)"
  by (simp add: resource_only_when_loaded_def unloadModel_store unloaded_def)

lemma inv_evict_loop:
  "resource_only_when_loaded w \<Longrightarrow> resource_only_when_loaded (evict_loop w es)"
  by (induction w es rule: evict_loop.induct) (simp_all add: inv_unload)

lemma inv_ensure:
  "resource_only_when_loaded w \<Longrightarrow> resource_only_when_loaded (ensureCacheSpace w)"
  by (simp add: ensureCacheSpace_def inv_evict_loop)

lemma inv_sweep:
  "resource_only_when_loaded w \<Longrightarrow> resource_only_when_loaded (fold (sweep now) xs w)"
  by (induction xs arbitrary: w) (auto simp: sweep_def inv_unload)

lemma inv_fold_unload:
  "resource_only_when_loaded w \<Longrightarrow>
   resource_only_when_loaded (fold (\<lambda>(modelName, a) w'. unloadModel w' modelName) xs w)"
  by (induction xs arbitrary: w) (auto simp: inv_unload)

lemma inv_dispose:
  "resource_only_when_loaded w \<Longrightarrow> resource_only_when_loaded (dispose w)"
  using inv_fold_unload [of w "modelCache w"]
  by (simp add: dispose_def resource_only_when_loaded_def)

lemma inv_upd:
  assumes "resource_only_when_loaded w"
    and "truthy (model (f (store w a))) \<Longrightarrow> status (f (store w a)) = LOADED"
  shows "resource_only_when_loaded (upd w a f)"
  using assms by (simp add: resource_only_when_loaded_def)

lemma ensure_model_falsy:
  assumes "\<not> truthy (model (store w a))"
  shows "\<not> truthy (model (store (ensureCacheSpace w) a))"
proof -
  have "\<not> truthy (model (store w a)) \<Longrightarrow> \<not> truthy (model (store (evict_loop w es) a))"
    for es
    by (induction w es rule: evict_loop.induct) (simp_all add: unloadModel_store unloaded_def)
  with assms show ?thesis
    by (simp add: ensureCacheSpace_def)
qed

lemma inv_enter:
  assumes "resource_only_when_loaded w"
  shows "resource_only_when_loaded (snd (loadModel_enter w n cfg now))
     \<and> (\<forall>a. fst (loadModel_enter w n cfg now) = Suspended a
            \<longrightarrow> \<not> truthy (model (store (snd (loadModel_enter w n cfg now)) a)))"
proof -
  define w1 where "w1 = (case cfg of None \<Rightarrow> w
                | Some c \<Rightarrow> if \<not> has w n then registerModel w c now else w)"
  have i1: "resource_only_when_loaded w1"
    using assms by (auto simp: w1_def inv_register split: option.splits)
  show ?thesis
  proof (cases "map_of (modelCache w1) n")
    case None
    then show ?thesis using i1 by (simp add: loadModel_enter_def w1_def [symmetric])
  next
    case (Some a)
    define w2 where "w2 = upd w1 a (\<lambda>e. e\<lparr>lastUsed := now\<rparr>)"
    have i2: "resource_only_when_loaded w2"
      unfolding w2_def using i1
      by (intro inv_upd) (simp_all add: resource_only_when_loaded_def)
    define w3 where "w3 = upd w2 a (\<lambda>e. e\<lparr>status := LOADING\<rparr>)"
    have i3: "resource_only_when_loaded w3 \<and> \<not> truthy (model (store w3 a))"
      if "\<not> (truthy (model (store w2 a)) \<and> status (store w2 a) = LOADED)"
      using that i2 unfolding w3_def by (auto simp: resource_only_when_loaded_def)
    have "loadModel_enter w n cfg now =
        (if truthy (model (store w2 a)) \<and> status (store w2 a) = LOADED
         then (Returned (model (store w2 a)), w2)
         else if status (store w2 a) = LOADING \<and> loadPromise (store w2 a) \<noteq> None
         then (ReturnedPromise (the (loadPromise (store w2 a))), w2)
         else (Suspended a, ensureCacheSpace w3))"
      using Some
      by (simp add: loadModel_enter_def w1_def [symmetric] Let_def w2_def w3_def)
    then show ?thesis
      using i2 i3 by (auto simp: inv_ensure ensure_model_falsy)
  qed
qed

lemma inv_load:
  assumes "resource_only_when_loaded w"
  shows "resource_only_when_loaded (snd (loadModel w n cfg now b))"
proof -
  obtain res w1 where e: "loadModel_enter w n cfg now = (res, w1)"
    by (cases "loadModel_enter w n cfg now")
  from inv_enter [OF assms, of n cfg now] e
  have i1: "resource_only_when_loaded w1"
    and f1: "\<And>a. res = Suspended a \<Longrightarrow> \<not> truthy (model (store w1 a))"
    by auto
  show ?thesis
  proof (cases res)
    case (Suspended a)
    with f1 have f: "\<not> truthy (model (store w1 a))" by simp
    show ?thesis
      using e Suspended i1 f
      by (cases b)
         (auto simp: loadModel_def loadModel_resume_def loadModel_settle_def
            catch_finally_def Let_def resource_only_when_loaded_def split: option.splits)
  qed (use e i1 in \<open>auto simp: loadModel_def\<close>)
qed

text \<open>
  In every state reached from a new loader by operations that do not overlap, an entry
  holds a truthy resource only when its status is \<open>LOADED\<close>.
\<close>

lemma sequential_invariant:
  "resource_only_when_loaded (foldl apply_op (new_AIModelLoader opts) ops)"
proof -
  have step: "resource_only_when_loaded w \<Longrightarrow> resource_only_when_loaded (apply_op w x)"
    for w x
    by (cases x) (simp_all add: inv_register inv_load inv_unload inv_dispose
        cleanupExpiredModels_def inv_sweep)
  have "resource_only_when_loaded w \<Longrightarrow> resource_only_when_loaded (foldl apply_op w ops)"
    for w
    by (induction ops arbitrary: w) (simp_all add: step)
  then show ?thesis by (simp add: inv_new)
qed

subsection \<open>The keys of the map stay distinct\<close>

text \<open>
  Every state that a run of events reaches from a new loader has distinct keys, so
  \<open>wf_cache\<close> excludes no state of the program.
\<close>

lemma wf_register: "wf_cache w \<Longrightarrow> wf_cache (registerModel w c now)"
  by (auto simp: wf_cache_def registerModel_def has_def map_of_eq_None_iff)

lemma wf_same: "modelCache w' = modelCache w \<Longrightarrow> wf_cache w \<Longrightarrow> wf_cache w'"
  by (simp add: wf_cache_def)

lemma enter_modelCache:
  "modelCache (snd (loadModel_enter w n cfg now)) =
     modelCache (case cfg of None \<Rightarrow> w
                 | Some c \<Rightarrow> if \<not> has w n then registerModel w c now else w)"
  by (simp add: loadModel_enter_def Let_def split: option.splits)

lemma wf_enter: "wf_cache w \<Longrightarrow> wf_cache (snd (loadModel_enter w n cfg now))"
proof -
  assume w: "wf_cache w"
  have "wf_cache (case cfg of None \<Rightarrow> w
                 | Some c \<Rightarrow> if \<not> has w n then registerModel w c now else w)"
    using w by (simp add: wf_register split: option.splits)
  then show ?thesis
    by (rule wf_same [OF enter_modelCache])
qed

lemma resume_modelCache:
  "modelCache (snd (loadModel_resume w n a cfg called)) = modelCache w"
  by (auto simp: loadModel_resume_def Let_def catch_finally_def
      split: option.splits invocation.splits)

lemma settle_modelCache:
  "modelCache (snd (loadModel_settle w a out)) = modelCache w"
  by (auto simp: loadModel_settle_def catch_finally_def split: outcome.splits)

lemma resume_oldest_modelCache:
  "modelCache (fst (snd (resume_oldest w called ts))) = modelCache w"
proof (induction ts)
  case Nil
  then show ?case by simp
next
  case (Cons t ts)
  show ?case
  proof (cases "t_awaits t")
    case None
    then show ?thesis
      using resume_modelCache [of w "t_name t" "t_entry t" "t_config t" called]
      by (auto split: prod.splits resume_result.splits)
  next
    case (Some p)
    then show ?thesis using Cons by (auto split: prod.splits)
  qed
qed

lemma settle_tasks_modelCache:
  "modelCache (fst (snd (settle_tasks w p out ts))) = modelCache w"
proof (induction ts arbitrary: w)
  case Nil
  then show ?case by simp
next
  case (Cons t ts)
  show ?case
  proof (cases "t_awaits t = Some p")
    case True
    obtain res w' where s: "loadModel_settle w (t_entry t) out = (res, w')"
      by (cases "loadModel_settle w (t_entry t) out")
    with settle_modelCache [of w "t_entry t" out] have "modelCache w' = modelCache w" by simp
    with Cons [of w'] True s show ?thesis by (auto split: prod.splits)
  next
    case False
    with Cons [of w] show ?thesis by (auto split: prod.splits)
  qed
qed

lemma wf_dispose: "wf_cache (dispose w)"
  by (simp add: wf_cache_def dispose_def)

lemma wf_step: "wf_cache (loader r) \<Longrightarrow> wf_cache (loader (step r ev))"
proof (cases ev)
  case (LoadModel n cfg now)
  assume "wf_cache (loader r)"
  from wf_enter [OF this, of n cfg now] LoadModel show ?thesis
    by (auto simp: call_loadModel_def Let_def split: prod.splits enter_result.splits)
next
  case (PreloadModel n now)
  assume "wf_cache (loader r)"
  from wf_enter [OF this, of n None now] PreloadModel \<open>wf_cache (loader r)\<close> show ?thesis
    by (auto simp: preloadModel_def call_loadModel_def Let_def
        split: prod.splits enter_result.splits option.splits)
next
  case (Resume called)
  assume "wf_cache (loader r)"
  with resume_oldest_modelCache [of "loader r" called "tasks r"] Resume show ?thesis
    by (auto simp: wf_cache_def split: prod.splits)
next
  case (Settle p out)
  assume "wf_cache (loader r)"
  with settle_tasks_modelCache [of "loader r" p out "tasks r"] Settle show ?thesis
    by (auto simp: wf_cache_def split: prod.splits)
qed (simp_all add: wf_register wf_dispose, simp_all add: wf_cache_def cleanupExpiredModels_def)

lemma wf_run: "wf_cache (loader (run (start opts) evs))"
proof -
  have "wf_cache (loader r) \<Longrightarrow> wf_cache (loader (foldl step r evs))" for r
    by (induction evs arbitrary: r) (simp_all add: wf_step)
  then show ?thesis
    by (simp add: run_def start_def wf_cache_def new_AIModelLoader_def)
qed

section \<open>The claims\<close>

text \<open>
  C10. The constructor replaces a falsy \<open>maxCacheSize\<close> (absent or 0) by 5 and a falsy
  \<open>cacheTtl\<close> by 1800000, and stores any other value as given, so neither field of a
  constructed loader is ever 0.
\<close>

theorem falsy_options_fall_back_to_defaults:
  "maxCacheSize (new_AIModelLoader \<lparr>opt_maxCacheSize = Some 0, opt_cacheTtl = t\<rparr>) = 5
   \<and> maxCacheSize (new_AIModelLoader \<lparr>opt_maxCacheSize = None, opt_cacheTtl = t\<rparr>) = 5
   \<and> cacheTtl (new_AIModelLoader \<lparr>opt_maxCacheSize = m, opt_cacheTtl = Some 0\<rparr>) = 1800000
   \<and> cacheTtl (new_AIModelLoader \<lparr>opt_maxCacheSize = m, opt_cacheTtl = None\<rparr>) = 1800000
   \<and> maxCacheSize (new_AIModelLoader opts) = or_default (opt_maxCacheSize opts) 5
   \<and> cacheTtl (new_AIModelLoader opts) = or_default (opt_cacheTtl opts) 1800000
   \<and> maxCacheSize (new_AIModelLoader opts) \<noteq> 0
   \<and> cacheTtl (new_AIModelLoader opts) \<noteq> 0"
proof -
  have nz: "or_default x d \<noteq> 0" if "d \<noteq> 0" for x d
    using that by (cases x) auto
  show ?thesis
    by (simp add: new_AIModelLoader_def nz)
qed

text \<open>
  C5. After \<open>dispose()\<close> the status of every name is \<open>IDLE\<close> and a load without an
  inline configuration throws the not-registered error, as both do on a loader that
  was just constructed.
\<close>

theorem dispose_forgets_registrations:
  "getModelStatus (dispose w) modelName = IDLE
   \<and> fst (loadModel (dispose w) modelName None now b) = Fail (NotRegistered modelName)
   \<and> fst (loadModel_enter (dispose w) modelName None now) = Threw (NotRegistered modelName)
   \<and> getModelStatus (new_AIModelLoader opts) modelName = IDLE
   \<and> fst (loadModel (new_AIModelLoader opts) modelName None now b)
       = Fail (NotRegistered modelName)
   \<and> modelCache (dispose w) = [] \<and> \<not> isInitialized (dispose w)"
  by (simp add: dispose_def getModelStatus_def loadModel_def loadModel_enter_def
      new_AIModelLoader_def)

text \<open>
  C6, as the code has it. When the entry of a name is \<open>LOADED\<close> and the cached resource
  is truthy, a load of that name, with or without an inline configuration, returns the
  cached resource, calls no load function, and sets \<open>lastUsed\<close> to the current time,
  leaving the rest of the entry as it was.
\<close>

theorem truthy_cache_hit:
  assumes "get_entry w n = Some e" "status e = LOADED" "truthy (model e)"
  shows "fst (loadModel w n cfg now b) = Ok (model e)
     \<and> fst (loadModel_enter w n cfg now) = Returned (model e)
     \<and> invoked (snd (loadModel w n cfg now b)) = invoked w
     \<and> get_entry (snd (loadModel w n cfg now b)) n = Some (e\<lparr>lastUsed := now\<rparr>)"
  using assms
  by (auto simp: get_entry_Some loadModel_def enter_registered Let_def get_entry_def hit_def)

theorem truthy_cache_hit_witness:
  "get_entry two_loaded ''a'' = Some entry_a \<and> status entry_a = LOADED
   \<and> truthy (model entry_a)
   \<and> fst (loadModel two_loaded ''a'' None 70 (Resolves (Obj 3))) = Ok (Obj 1)
   \<and> invoked (snd (loadModel two_loaded ''a'' None 70 (Resolves (Obj 3)))) = [7, 8]
   \<and> get_entry (snd (loadModel two_loaded ''a'' None 70 (Resolves (Obj 3)))) ''a''
       = Some (entry_a\<lparr>lastUsed := 70\<rparr>)"
proof -
  have h1: "get_entry two_loaded ''a'' = Some entry_a"
    by (simp add: two_loaded_def entry_a_def scenario_defs)
  have h2: "status entry_a = LOADED" and h3: "truthy (model entry_a)"
    by (simp_all add: entry_a_def)
  have h4: "invoked two_loaded = [7, 8]"
    by (simp add: two_loaded_def scenario_defs)
  show ?thesis
    using truthy_cache_hit [OF h1 h2 h3, of None 70 "Resolves (Obj 3)"] h1 h2 h3 h4
    by (simp add: entry_a_def)
qed

text \<open>
  C6, as stated, fails: a load function that resolves to a falsy value (here
  \<open>undefined\<close>) leaves the entry \<open>LOADED\<close>, and the next load of the name calls the
  load function again and returns the new resource.
\<close>

theorem loaded_falsy_counterexample:
  "statuses (run (start (capacity 5)) falsy_loaded) [''a''] = [LOADED]
   \<and> invoked (loader (run (start (capacity 5)) falsy_loaded)) = [7]
   \<and> invoked (loader (run (start (capacity 5)) (falsy_loaded @ falsy_again))) = [7, 7]
   \<and> results (run (start (capacity 5)) (falsy_loaded @ falsy_again))
       = [(0, Inr (Falsy 0)), (1, Inr (Obj 1))]"
  by (simp add: falsy_loaded_def falsy_again_def scenario_defs)

text \<open>
  C4. For a registered name whose load reaches the load function (no cache hit, no stored
  promise to return): when the load function throws or its promise is rejected with
  \<open>x\<close>, the call fails with \<open>x\<close> itself, the entry's status is \<open>ERROR\<close>, its
  \<open>loadPromise\<close> is \<open>null\<close>, and the load function was called once, not again. The
  next \<open>loadModel\<close> of the name calls the load function once more, and when that
  resolves to \<open>m\<close> the call returns \<open>m\<close> and the entry is \<open>LOADED\<close> and holds \<open>m\<close>.
\<close>

theorem error_then_retry:
  assumes reg: "get_entry w n = Some e"
    and go: "\<not> hit e" "\<not> joins e"
    and f: "cfg_loadModel (config e) = Some f"
    and b: "b = Throws x \<or> b = Rejects x"
  shows "fst (loadModel w n None now b) = Fail (Raised x)
     \<and> map_option status (get_entry (snd (loadModel w n None now b)) n) = Some ERROR
     \<and> map_option loadPromise (get_entry (snd (loadModel w n None now b)) n) = Some None
     \<and> invoked (snd (loadModel w n None now b)) = invoked w @ [f]
     \<and> fst (loadModel (snd (loadModel w n None now b)) n None now' (Resolves m)) = Ok m
     \<and> invoked (snd (loadModel (snd (loadModel w n None now b)) n None now' (Resolves m)))
         = invoked w @ [f, f]
     \<and> map_option status
          (get_entry (snd (loadModel (snd (loadModel w n None now b)) n None now' (Resolves m))) n)
         = Some LOADED
     \<and> map_option model
          (get_entry (snd (loadModel (snd (loadModel w n None now b)) n None now' (Resolves m))) n)
         = Some m"
proof -
  from reg obtain a where a: "map_of (modelCache w) n = Some a" and e: "store w a = e"
    by (auto simp: get_entry_Some)
  from enter_constructs [OF a, of None now] go e obtain w1 where
    w1: "loadModel_enter w n None now = (Suspended a, w1)"
      "store w1 a = e\<lparr>lastUsed := now, status := LOADING\<rparr>"
      "modelCache w1 = modelCache w" "invoked w1 = invoked w"
    by auto
  define w3 where "w3 = snd (loadModel w n None now b)"
  have first: "loadModel w n None now b = (Fail (Raised x), w3)"
    and st3: "store w3 a = e\<lparr>lastUsed := now, status := ERROR, loadPromise := None\<rparr>"
    and mc3: "modelCache w3 = modelCache w" and inv3: "invoked w3 = invoked w @ [f]"
    using b w1 f unfolding w3_def
    by (auto simp: loadModel_def loadModel_resume_def loadModel_settle_def
        catch_finally_def Let_def)
  have a3: "map_of (modelCache w3) n = Some a" using a mc3 by simp
  have "\<not> hit (store w3 a)" "\<not> joins (store w3 a)"
    by (simp_all add: st3 hit_def joins_def)
  from enter_constructs [OF a3 this, of None now'] obtain w4 where
    w4: "loadModel_enter w3 n None now' = (Suspended a, w4)"
      "store w4 a = (store w3 a)\<lparr>lastUsed := now', status := LOADING\<rparr>"
      "modelCache w4 = modelCache w3" "invoked w4 = invoked w3"
    by auto
  define w6 where "w6 = snd (loadModel w3 n None now' (Resolves m))"
  have second: "loadModel w3 n None now' (Resolves m) = (Ok m, w6)"
    and st6: "status (store w6 a) = LOADED" "model (store w6 a) = m"
    and mc6: "modelCache w6 = modelCache w" and inv6: "invoked w6 = invoked w @ [f, f]"
    using w4 st3 f mc3 inv3 unfolding w6_def
    by (auto simp: loadModel_def loadModel_resume_def loadModel_settle_def
        catch_finally_def Let_def)
  show ?thesis
    unfolding w3_def [symmetric] w6_def [symmetric]
    using first second st3 st6 mc3 mc6 inv3 inv6 a
    by (simp add: get_entry_def)
qed

theorem error_then_retry_witness:
  "get_entry registered_a ''a'' = Some idle_a \<and> \<not> hit idle_a \<and> \<not> joins idle_a
   \<and> cfg_loadModel (config idle_a) = Some 7
   \<and> fst (loadModel registered_a ''a'' None 1 (Rejects 3)) = Fail (Raised 3)
   \<and> getModelStatus (snd (loadModel registered_a ''a'' None 1 (Rejects 3))) ''a'' = ERROR
   \<and> invoked (snd (loadModel registered_a ''a'' None 1 (Rejects 3))) = [7]
   \<and> fst (loadModel (snd (loadModel registered_a ''a'' None 1 (Rejects 3))) ''a'' None 2
            (Resolves (Obj 1))) = Ok (Obj 1)
   \<and> invoked (snd (loadModel (snd (loadModel registered_a ''a'' None 1 (Rejects 3))) ''a''
            None 2 (Resolves (Obj 1)))) = [7, 7]"
proof -
  have h1: "get_entry registered_a ''a'' = Some idle_a"
    by (simp add: registered_a_def idle_a_def scenario_defs)
  have h2: "\<not> hit idle_a" and h3: "\<not> joins idle_a"
    and h4: "cfg_loadModel (config idle_a) = Some 7"
    by (simp_all add: idle_a_def hit_def joins_def cfg_of_def)
  have h5: "Rejects 3 = Throws 3 \<or> Rejects 3 = Rejects 3" by simp
  have h6: "invoked registered_a = []"
    by (simp add: registered_a_def scenario_defs)
  have h7: "getModelStatus w ''a'' = ERROR"
    if "map_option status (get_entry w ''a'') = Some ERROR" for w
    using that by (auto simp: getModelStatus_def get_entry_def split: option.splits)
  show ?thesis
    using error_then_retry [OF h1 h2 h3 h4 h5, of 1 2 "Obj 1"] h1 h2 h3 h4 h6 h7
    by simp
qed

text \<open>
  C9. A load with an inline configuration for a name that is registered leaves the map
  and the stored configuration of every entry as they were; unless the call is a cache
  hit or returns the stored promise, the one function it calls is the \<open>loadModel\<close>
  of the inline configuration (none when that field is not a function).
\<close>

theorem inline_config_overrides_stored:
  assumes reg: "get_entry w n = Some e"
  shows "modelCache (snd (loadModel w n (Some c) now b)) = modelCache w
     \<and> config (store (snd (loadModel w n (Some c) now b)) a') = config (store w a')
     \<and> invoked (snd (loadModel w n (Some c) now b))
         = invoked w @ (if hit e \<or> joins e then []
                        else case cfg_loadModel c of None \<Rightarrow> [] | Some f \<Rightarrow> [f])"
proof -
  from reg obtain a where a: "map_of (modelCache w) n = Some a" and e: "store w a = e"
    by (auto simp: get_entry_Some)
  show ?thesis
  proof (cases "hit e \<or> joins e")
    case True
    then show ?thesis using a e
      by (auto simp: loadModel_def enter_registered Let_def)
  next
    case False
    with enter_constructs [OF a, of "Some c" now] e obtain w1 where
      w1: "loadModel_enter w n (Some c) now = (Suspended a, w1)"
      "modelCache w1 = modelCache w" "invoked w1 = invoked w"
      "\<And>b. config (store w1 b) = config (store w b)"
      by auto
    with False show ?thesis
      by (cases b; cases "cfg_loadModel c")
         (auto simp: loadModel_def loadModel_resume_def loadModel_settle_def
            catch_finally_def Let_def)
  qed
qed

theorem inline_config_overrides_stored_witness:
  "get_entry registered_a ''a'' = Some idle_a
   \<and> modelCache (snd (loadModel registered_a ''a'' (Some (cfg_of ''a'' 9)) 1
        (Resolves (Obj 1)))) = [(''a'', 0)]
   \<and> config (store (snd (loadModel registered_a ''a'' (Some (cfg_of ''a'' 9)) 1
        (Resolves (Obj 1)))) 0) = cfg_of ''a'' 7
   \<and> invoked (snd (loadModel registered_a ''a'' (Some (cfg_of ''a'' 9)) 1
        (Resolves (Obj 1)))) = [9]"
proof -
  have h1: "get_entry registered_a ''a'' = Some idle_a"
    by (simp add: registered_a_def idle_a_def scenario_defs)
  have h2: "\<not> hit idle_a" and h3: "\<not> joins idle_a"
    by (simp_all add: idle_a_def hit_def joins_def)
  have h4: "modelCache registered_a = [(''a'', 0)]" "invoked registered_a = []"
    "config (store registered_a 0) = cfg_of ''a'' 7"
    by (simp_all add: registered_a_def scenario_defs)
  show ?thesis
    using inline_config_overrides_stored [OF h1, of "cfg_of ''a'' 9" 1 "Resolves (Obj 1)" 0]
      h1 h2 h3 h4
    by (simp add: cfg_of_def)
qed

text \<open>
  C7. \<open>cleanupExpiredModels()\<close> at time \<open>now\<close> turns the entry of a name into
  \<open>IDLE\<close> with the resource cleared exactly when it is \<open>LOADED\<close> and
  \<open>now - lastUsed\<close> exceeds \<open>cacheTtl\<close>, and leaves every other entry, the map and the
  rest of the loader as they were. Nothing expires before: no other operation reads
  \<open>cacheTtl\<close>, so each of them does the same whatever its value is.
\<close>

theorem ttl_expiry:
  assumes "wf_cache w"
  shows "get_entry (cleanupExpiredModels w now) modelName =
           map_option (\<lambda>e. if status e = LOADED \<and> now - lastUsed e > cacheTtl w
                            then e\<lparr>model := Null, status := IDLE\<rparr> else e)
             (get_entry w modelName)
     \<and> modelCache (cleanupExpiredModels w now) = modelCache w
     \<and> cacheTtl (cleanupExpiredModels w now) = cacheTtl w
     \<and> maxCacheSize (cleanupExpiredModels w now) = maxCacheSize w
     \<and> invoked (cleanupExpiredModels w now) = invoked w
     \<and> (a \<notin> snd ` set (modelCache w) \<longrightarrow> store (cleanupExpiredModels w now) a = store w a)
     \<and> getModelStatus (w\<lparr>cacheTtl := t\<rparr>) modelName = getModelStatus w modelName
     \<and> registerModel (w\<lparr>cacheTtl := t\<rparr>) c now = (registerModel w c now)\<lparr>cacheTtl := t\<rparr>
     \<and> unloadModel (w\<lparr>cacheTtl := t\<rparr>) modelName = (unloadModel w modelName)\<lparr>cacheTtl := t\<rparr>
     \<and> dispose (w\<lparr>cacheTtl := t\<rparr>) = (dispose w)\<lparr>cacheTtl := t\<rparr>
     \<and> loadModel_enter (w\<lparr>cacheTtl := t\<rparr>) modelName cfg now =
         (fst (loadModel_enter w modelName cfg now),
          (snd (loadModel_enter w modelName cfg now))\<lparr>cacheTtl := t\<rparr>)
     \<and> loadModel_resume (w\<lparr>cacheTtl := t\<rparr>) modelName a cfg called =
         (fst (loadModel_resume w modelName a cfg called),
          (snd (loadModel_resume w modelName a cfg called))\<lparr>cacheTtl := t\<rparr>)
     \<and> loadModel_settle (w\<lparr>cacheTtl := t\<rparr>) a out =
         (fst (loadModel_settle w a out), (snd (loadModel_settle w a out))\<lparr>cacheTtl := t\<rparr>)"
proof -
  note st = fold_sweep_store [OF wf_cache_bindings [OF assms], of now]
  have "get_entry (cleanupExpiredModels w now) modelName =
           map_option (\<lambda>e. if status e = LOADED \<and> now - lastUsed e > cacheTtl w
                            then e\<lparr>model := Null, status := IDLE\<rparr> else e)
             (get_entry w modelName)"
  proof (cases "map_of (modelCache w) modelName")
    case None
    then show ?thesis by (simp add: get_entry_def cleanupExpiredModels_def)
  next
    case (Some b)
    then have "b \<in> snd ` set (modelCache w)"
      by (metis map_of_SomeD snd_conv image_eqI)
    with Some show ?thesis
      by (simp add: get_entry_def cleanupExpiredModels_def st expired_def unloaded_def)
  qed
  moreover have "getModelStatus (w\<lparr>cacheTtl := t\<rparr>) modelName = getModelStatus w modelName"
    by (simp add: getModelStatus_def split: option.splits)
  ultimately show ?thesis
    by (simp add: cleanupExpiredModels_def st registerModel_ttl unloadModel_ttl dispose_ttl
        loadModel_enter_ttl loadModel_resume_ttl loadModel_settle_ttl)
qed

theorem ttl_expiry_witness:
  "wf_cache two_loaded \<and> cacheTtl two_loaded = 30
   \<and> get_entry two_loaded ''a'' = Some entry_a \<and> get_entry two_loaded ''b'' = Some entry_b
   \<and> get_entry (cleanupExpiredModels two_loaded 60) ''a''
       = Some (entry_a\<lparr>model := Null, status := IDLE\<rparr>)
   \<and> get_entry (cleanupExpiredModels two_loaded 60) ''b'' = Some entry_b"
proof -
  have h1: "wf_cache two_loaded"
    by (simp add: wf_cache_def two_loaded_def scenario_defs)
  have h2: "cacheTtl two_loaded = 30"
    by (simp add: two_loaded_def scenario_defs)
  have h3: "get_entry two_loaded ''a'' = Some entry_a"
    by (simp add: two_loaded_def entry_a_def scenario_defs)
  have h4: "get_entry two_loaded ''b'' = Some entry_b"
    by (simp add: two_loaded_def entry_b_def scenario_defs)
  have a: "status entry_a = LOADED" "lastUsed entry_a = 1"
    and b: "status entry_b = LOADED" "lastUsed entry_b = 50"
    by (simp_all add: entry_a_def entry_b_def)
  show ?thesis
    using ttl_expiry [OF h1, of 60 "''a''"] ttl_expiry [OF h1, of 60 "''b''"] h1 h2 h3 h4 a b
    by simp
qed

text \<open>
  C1, on the code. With capacity 2, after \<open>x\<close> and \<open>y\<close> were loaded at times 1 and 2
  (both \<open>LOADED\<close>), the load of \<open>z\<close> at time 3 unloads \<open>x\<close> and \<open>y\<close> both: the loop
  of \<open>ensureCacheSpace\<close> tests the size of the map, which \<open>unloadModel\<close> never
  changes. With the three names registered beforehand, the load of \<open>y\<close> has already
  unloaded \<open>x\<close>, and the load of \<open>z\<close> unloads \<open>y\<close>, the most recently used entry.
\<close>

theorem lru_scenario_unloads_every_loaded_entry:
  "statuses (run (start (capacity 2)) lru_x_y) [''x'', ''y'', ''z''] = [LOADED, LOADED, IDLE]
   \<and> statuses (run (start (capacity 2)) (lru_x_y @ lru_z)) [''x'', ''y'', ''z'']
       = [IDLE, IDLE, LOADED]
   \<and> results (run (start (capacity 2)) (lru_x_y @ lru_z))
       = [(0, Inr (Obj 10)), (1, Inr (Obj 11)), (2, Inr (Obj 12))]
   \<and> statuses (run (start (capacity 2)) lru_registered) [''x'', ''y'', ''z'']
       = [IDLE, LOADED, IDLE]
   \<and> statuses (run (start (capacity 2)) (lru_registered @ awaited ''z'' None 3 2 (Resolved (Obj 12))))
        [''x'', ''y'', ''z''] = [IDLE, IDLE, LOADED]"
  by (simp add: lru_x_y_def lru_z_def lru_registered_def scenario_defs)

text \<open>
  C2, on the code. Two calls \<open>loadModel('a')\<close> made in one synchronous run are both
  suspended at the \<open>await\<close> of line 99 with the entry \<open>LOADING\<close> and no promise stored:
  the second call finds nothing to return at line 92. Each then calls the load
  function, and the two calls resolve to the two resources.
\<close>

theorem overlapping_loads_construct_twice:
  "tasks (run (start (capacity 5)) (take 3 overlap)) =
      [\<lparr>t_call = 0, t_name = ''a'', t_entry = 0, t_config = None, t_awaits = None\<rparr>,
       \<lparr>t_call = 1, t_name = ''a'', t_entry = 0, t_config = None, t_awaits = None\<rparr>]
   \<and> map_option (\<lambda>e. (status e, loadPromise e))
        (get_entry (loader (run (start (capacity 5)) (take 2 overlap))) ''a'')
       = Some (LOADING, None)
   \<and> invoked (loader (run (start (capacity 5)) overlap)) = [7, 7]
   \<and> results (run (start (capacity 5))
        (overlap @ [Settle 0 (Resolved (Obj 1)), Settle 1 (Resolved (Obj 2))]))
       = [(0, Inr (Obj 1)), (1, Inr (Obj 2))]"
  by (simp add: overlap_def scenario_defs)

text \<open>
  C8, on the code. After the two overlapping calls, the first load resolves and the
  second is rejected: the entry is left in \<open>ERROR\<close> holding the resource of the first.
  The same happens when the first of the two calls is made by \<open>preloadModel\<close>.
\<close>

theorem overlapping_loads_leave_resource_in_error:
  "map_option (\<lambda>e. (model e, status e))
     (get_entry (loader (run (start (capacity 5))
        (overlap @ [Settle 0 (Resolved (Obj 1)), Settle 1 (Rejected 3)]))) ''a'')
     = Some (Obj 1, ERROR)
   \<and> map_option (\<lambda>e. (model e, status e))
     (get_entry (loader (run (start (capacity 5))
        (preload_then_load @ [Settle 0 (Resolved (Obj 1)), Settle 1 (Rejected 3)]))) ''a'')
     = Some (Obj 1, ERROR)"
  by (simp add: overlap_def preload_then_load_def scenario_defs)

text \<open>
  C3, as the code has it. With capacity 1 and \<open>a\<close> and \<open>b\<close> registered, the load of
  \<open>a\<close> resolves and \<open>a\<close> is \<open>LOADED\<close>. The load of \<open>b\<close> runs the eviction pass before
  the load function of \<open>b\<close>: the map holds two entries, more than the capacity, so
  \<open>a\<close> is unloaded. Already when the call of \<open>loadModel('b')\<close> is suspended at line
  99, with the load function of \<open>b\<close> not yet called, \<open>a\<close> is \<open>IDLE\<close> with its resource
  cleared and \<open>b\<close> is \<open>LOADING\<close>; the load function of \<open>b\<close> is called in the next
  run. It is rejected with \<open>x\<close>: the call fails with \<open>x\<close>, \<open>b\<close> is \<open>ERROR\<close> and
  \<open>a\<close> is still \<open>IDLE\<close>. The next load of \<open>a\<close> calls the load function of \<open>a\<close>
  again and returns what it resolves to.
\<close>

theorem capacity_one_scenario:
  "statuses (run (start (capacity 1)) (cap1_a fa fb t1 m)) [''a'', ''b''] = [LOADED, IDLE]
   \<and> statuses (run (start (capacity 1)) (cap1_a fa fb t1 m @ [LoadModel ''b'' None t2]))
        [''a'', ''b''] = [IDLE, LOADING]
   \<and> map_option model
        (get_entry (loader (run (start (capacity 1))
           (cap1_a fa fb t1 m @ [LoadModel ''b'' None t2]))) ''a'')
       = Some Null
   \<and> invoked (loader (run (start (capacity 1))
        (cap1_a fa fb t1 m @ [LoadModel ''b'' None t2]))) = [fa]
   \<and> tasks (run (start (capacity 1)) (cap1_a fa fb t1 m @ [LoadModel ''b'' None t2]))
       = [\<lparr>t_call = 1, t_name = ''b'', t_entry = 1, t_config = None, t_awaits = None\<rparr>]
   \<and> invoked (loader (run (start (capacity 1))
        (cap1_a fa fb t1 m @ [LoadModel ''b'' None t2, Resume CallReturns]))) = [fa, fb]
   \<and> statuses (run (start (capacity 1))
        (cap1_a fa fb t1 m @ [LoadModel ''b'' None t2, Resume CallReturns])) [''a'', ''b'']
       = [IDLE, LOADING]
   \<and> statuses (run (start (capacity 1)) (cap1_a fa fb t1 m @ cap1_b t2 x)) [''a'', ''b'']
       = [IDLE, ERROR]
   \<and> map_option model
        (get_entry (loader (run (start (capacity 1)) (cap1_a fa fb t1 m @ cap1_b t2 x))) ''a'')
       = Some Null
   \<and> results (run (start (capacity 1)) (cap1_a fa fb t1 m @ cap1_b t2 x))
       = [(0, Inr m), (1, Inl (Raised x))]
   \<and> invoked (loader (run (start (capacity 1)) (cap1_a fa fb t1 m @ cap1_b t2 x))) = [fa, fb]
   \<and> invoked (loader (run (start (capacity 1))
        (cap1_a fa fb t1 m @ cap1_b t2 x @ cap1_a_again t3 m'))) = [fa, fb, fa]
   \<and> results (run (start (capacity 1))
        (cap1_a fa fb t1 m @ cap1_b t2 x @ cap1_a_again t3 m'))
       = [(0, Inr m), (1, Inl (Raised x)), (2, Inr m')]
   \<and> statuses (run (start (capacity 1))
        (cap1_a fa fb t1 m @ cap1_b t2 x @ cap1_a_again t3 m')) [''a'', ''b'']
       = [LOADED, ERROR]"
  by (simp add: cap1_a_def cap1_b_def cap1_a_again_def scenario_defs)

text \<open>
  C3, as stated, fails: after the failed load of \<open>b\<close> the status of \<open>a\<close> is not
  \<open>LOADED\<close>, and the further load of \<open>a\<close> calls its load function a second time.
\<close>

theorem capacity_one_counterexample:
  "getModelStatus (loader (run (start (capacity 1))
      (cap1_a 0 1 1 (Obj 10) @ cap1_b 2 9))) ''a'' \<noteq> LOADED
   \<and> invoked (loader (run (start (capacity 1))
      (cap1_a 0 1 1 (Obj 10) @ cap1_b 2 9 @ cap1_a_again 3 (Obj 11)))) \<noteq> [0, 1]"
  by (simp add: cap1_a_def cap1_b_def cap1_a_again_def scenario_defs)

end
